theory Spec2Isabelle
  imports Complex_Main "HOL-Library.Word"
begin

section \<open>Strings, messages and the component state of ChatPage.jsx\<close>

text \<open>
  A JavaScript string is a sequence of 16-bit code units: \<open>length\<close> counts them and
  \<open>s[i]\<close> reads one. String literals of the source are written \<open>lit ''...''\<close>.
\<close>

type_synonym code_unit = "16 word"
type_synonym js_string = "code_unit list"

definition lit :: "string \<Rightarrow> js_string" where
  "lit s = map (\<lambda>c. of_nat (of_char c)) s"

text \<open>
  \<open>String.prototype.trim\<close> removes WhiteSpace and LineTerminator code units from both
  ends of the string (ECMA-262, 22.1.3.32).
\<close>

definition is_space :: "code_unit \<Rightarrow> bool" where
  "is_space c \<longleftrightarrow>
     (let n = unat c in
      (9 \<le> n \<and> n \<le> 13) \<or> n = 32 \<or> n = 160 \<or> n = 5760 \<or> (8192 \<le> n \<and> n \<le> 8202)
      \<or> n = 8232 \<or> n = 8233 \<or> n = 8239 \<or> n = 8287 \<or> n = 12288 \<or> n = 65279)"

definition trim :: "js_string \<Rightarrow> js_string" where
  "trim s = rev (dropWhile is_space (rev (dropWhile is_space s)))"

text \<open>A message of the transcript: \<open>{ role, content }\<close>.\<close>

record message =
  role :: js_string
  content :: js_string

text \<open>
  The state of the component: the five \<open>useState\<close> cells, and the entry
  \<open>"sessionId"\<close> of the browser's \<open>localStorage\<close> (\<open>None\<close> when the key is absent).
\<close>

record ui =
  sessionId :: js_string
  messages :: "message list"
  input :: js_string
  loading :: bool
  error :: js_string
  localStorage :: "js_string option"

section \<open>What a request to the backend can come back with\<close>

text \<open>
  The body of a response, as the two readers of the source see it: \<open>res.text()\<close>
  rejects on an unreadable body only; \<open>res.json()\<close> rejects on an unreadable body and on
  text that is not JSON. Parsed JSON is either \<open>null\<close> (reading \<open>data.history\<close> then
  throws a TypeError) or a value whose \<open>history\<close> property is read: \<open>None\<close> when the
  property is missing or falsy, \<open>Some h\<close> when it is an array of messages (the wire shape
  \<open>{ history: Message[] }\<close>; an empty array is truthy).
\<close>

datatype json = JNull | JData "message list option"

datatype body = Unreadable | NotJson | Json json

record response =
  status :: nat
  body :: body

text \<open>\<open>fetch\<close> rejects (a network failure) or resolves with a response.\<close>

datatype fetch_result = Rejected | Resolved response

definition ok :: "response \<Rightarrow> bool" where
  "ok res \<longleftrightarrow> 200 \<le> status res \<and> status res \<le> 299"

section \<open>Numbers and session identifiers\<close>

text \<open>
  A number of the source is an IEEE 754 double. A finite double is modelled by the real
  number it denotes, and every arithmetic operation of the source returns the exact
  result rounded to the nearest double, ties to even: \<open>fl\<close>. For a positive \<open>y\<close>,
  \<open>binade y\<close> is the exponent \<open>e\<close> with \<open>2^e \<le> y < 2^(e+1)\<close>, not below the
  exponent -1022 of the subnormal numbers, and \<open>ulp y\<close> is the distance \<open>2^(e-52)\<close> of
  neighbouring doubles there. Overflow is left out: the numbers computed here stay below
  \<open>2^20\<close>.
\<close>

fun bits :: "nat \<Rightarrow> nat" where
  "bits n = (if n = 0 then 0 else Suc (bits (n div 2)))"

declare bits.simps [simp del]

definition binade :: "real \<Rightarrow> int" where
  "binade y =
     (if 1 \<le> y then int (bits (nat \<lfloor>y\<rfloor>)) - 1
      else max (- 1022) (- int (bits (nat (\<lceil>1 / y\<rceil> - 1)))))"

definition ulp :: "real \<Rightarrow> real" where
  "ulp y = (if 52 \<le> binade y then 2 ^ nat (binade y - 52) else 1 / 2 ^ nat (52 - binade y))"

definition round_even :: "real \<Rightarrow> int" where
  "round_even r =
     (if r - of_int \<lfloor>r\<rfloor> < 1 / 2 then \<lfloor>r\<rfloor>
      else if 1 / 2 < r - of_int \<lfloor>r\<rfloor> then \<lfloor>r\<rfloor> + 1
      else if even \<lfloor>r\<rfloor> then \<lfloor>r\<rfloor> else \<lfloor>r\<rfloor> + 1)"

definition fl :: "real \<Rightarrow> real" where
  "fl y = (if y = 0 then 0 else sgn y * (ulp \<bar>y\<bar> * of_int (round_even (\<bar>y\<bar> / ulp \<bar>y\<bar>))))"

text \<open>The reals that are doubles: those that rounding leaves as they are.\<close>

definition is_double :: "real \<Rightarrow> bool" where
  "is_double x \<longleftrightarrow> fl x = x"

text \<open>
  \<open>Math.floor(100000 + Math.random() * 900000).toString()\<close>. The value drawn by
  \<open>Math.random()\<close> is a parameter \<open>rnd\<close>, a double with \<open>0 \<le> rnd < 1\<close>; the product
  and the sum are rounded as the source computes them. \<open>toString\<close> is the decimal
  representation of a non-negative integer.
\<close>

definition digit :: "nat \<Rightarrow> code_unit" where
  "digit d = of_nat (48 + d)"

fun toString :: "nat \<Rightarrow> js_string" where
  "toString n = (if n < 10 then [digit n] else toString (n div 10) @ [digit (n mod 10)])"

declare toString.simps [simp del]

definition newSessionId :: "real \<Rightarrow> js_string" where
  "newSessionId rnd = toString (nat \<lfloor>fl (100000 + fl (rnd * 900000))\<rfloor>)"

definition is_digit :: "code_unit \<Rightarrow> bool" where
  "is_digit c \<longleftrightarrow> 48 \<le> unat c \<and> unat c \<le> 57"

text \<open>The number a string of decimal digits denotes.\<close>

definition decimal :: "js_string \<Rightarrow> nat" where
  "decimal s = foldl (\<lambda>n c. 10 * n + (unat c - 48)) 0 s"

section \<open>handleSend\<close>

text \<open>
  \<open>handleSend\<close> runs up to its \<open>await fetch(...)\<close>, and resumes when the request
  settles. What the resumed part still reads of the first part is its closure:
  \<open>previousMessages\<close> and \<open>optimistic\<close>.
\<close>

record send_closure =
  previousMessages :: "message list"
  optimistic :: "message list"

record chat_request =
  req_sessionId :: js_string
  userMessage :: js_string

definition handleSend_start :: "ui \<Rightarrow> ui \<times> (chat_request \<times> send_closure) option" where
  "handleSend_start u =
     (if trim (input u) = [] \<or> sessionId u = [] then (u, None)
      else
        let previous = messages u;
            userMsg = \<lparr>role = lit ''user'', content = input u\<rparr>;
            opt = messages u @ [userMsg]
        in (u\<lparr>error := [], loading := True, messages := opt\<rparr>,
            Some (\<lparr>req_sessionId = sessionId u, userMessage = input u\<rparr>,
                  \<lparr>previousMessages = previous, optimistic = opt\<rparr>)))"

text \<open>
  The typing animation: the variables \<open>typeNextChar\<close> closes over. Each call either
  appends \<open>fullText[index]\<close> to \<open>typedBot.content\<close>, shows it and re-arms the timer
  (\<open>Some\<close> of the updated closure), or shows \<open>fullHistory\<close> and stops (\<open>None\<close>).
\<close>

record typing =
  t_optimistic :: "message list"
  fullHistory :: "message list"
  fullText :: js_string
  index :: nat
  typedBot :: message

definition typeNextChar :: "typing \<Rightarrow> ui \<Rightarrow> ui \<times> typing option" where
  "typeNextChar t u =
     (if index t < length (fullText t) then
        let bot = (typedBot t)\<lparr>content := content (typedBot t) @ [fullText t ! index t]\<rparr>
        in (u\<lparr>messages := t_optimistic t @ [bot]\<rparr>,
            Some (t\<lparr>typedBot := bot, index := index t + 1\<rparr>))
      else (u\<lparr>messages := fullHistory t\<rparr>, None))"

text \<open>The \<open>catch\<close> block followed by \<open>finally\<close>.\<close>

definition send_catch :: "send_closure \<Rightarrow> ui \<Rightarrow> ui" where
  "send_catch c u =
     u\<lparr>messages := previousMessages c, error := lit ''Network error. Please try again.'',
       loading := False\<rparr>"

text \<open>The branch \<open>if (!res.ok)\<close> once \<open>res.text()\<close> has been read.\<close>

definition send_not_ok :: "send_closure \<Rightarrow> nat \<Rightarrow> ui \<Rightarrow> ui" where
  "send_not_ok c st u =
     u\<lparr>messages := previousMessages c,
       error := (if st = 503
                 then lit ''Gemini API is overloaded. Please try again in a few seconds.''
                 else lit ''Something went wrong. Please try again.''),
       loading := False\<rparr>"

text \<open>
  The part after \<open>const data = await res.json()\<close>, given \<open>data.history\<close>:
  \<open>fullHistory = data.history || optimistic\<close>, the test on its last entry, and the
  start of the animation with the first, synchronous call of \<open>typeNextChar\<close>.
\<close>

definition fullHistory_of :: "send_closure \<Rightarrow> message list option \<Rightarrow> message list" where
  "fullHistory_of c history = (case history of None \<Rightarrow> optimistic c | Some h \<Rightarrow> h)"

definition ends_with_assistant :: "message list \<Rightarrow> bool" where
  "ends_with_assistant full \<longleftrightarrow> full \<noteq> [] \<and> role (last full) = lit ''assistant''"

definition typing_init :: "send_closure \<Rightarrow> message list \<Rightarrow> typing" where
  "typing_init c full =
     \<lparr>t_optimistic = optimistic c, fullHistory = full, fullText = content (last full),
      index = 0, typedBot = \<lparr>role = lit ''assistant'', content = []\<rparr>\<rparr>"

definition send_process :: "send_closure \<Rightarrow> message list option \<Rightarrow> ui \<Rightarrow> ui \<times> typing option" where
  "send_process c history u =
     (let full = fullHistory_of c history
      in if \<not> ends_with_assistant full
         then (u\<lparr>messages := full, loading := False\<rparr>, None)
         else
           let t = typing_init c full;
               u1 = u\<lparr>messages := optimistic c @ [typedBot t]\<rparr>;
               (u2, t') = typeNextChar t u1
           in (u2\<lparr>input := [], loading := False\<rparr>, t'))"

definition handleSend_resume :: "send_closure \<Rightarrow> fetch_result \<Rightarrow> ui \<Rightarrow> ui \<times> typing option" where
  "handleSend_resume c r u =
     (case r of
        Rejected \<Rightarrow> (send_catch c u, None)
      | Resolved res \<Rightarrow>
          if \<not> ok res then
            (case body res of
               Unreadable \<Rightarrow> (send_catch c u, None)
             | _ \<Rightarrow> (send_not_ok c (status res) u, None))
          else
            (case body res of
               Unreadable \<Rightarrow> (send_catch c u, None)
             | NotJson \<Rightarrow> (send_catch c u, None)
             | Json JNull \<Rightarrow> (send_catch c u, None)
             | Json (JData history) \<Rightarrow> send_process c history u))"

text \<open>
  Running the animation to its end with no other event in between: the timer callbacks
  fire until \<open>typeNextChar\<close> stops re-arming.
\<close>

function finish_typing :: "typing \<Rightarrow> ui \<Rightarrow> ui" where
  "finish_typing t u =
     (case typeNextChar t u of
        (u', None) \<Rightarrow> u'
      | (u', Some t') \<Rightarrow> finish_typing t' u')"
  by pat_completeness auto
termination
  by (relation "measure (\<lambda>(t, u). length (fullText t) - index t)")
     (auto simp: typeNextChar_def Let_def split: if_splits)

declare finish_typing.simps [simp del]

text \<open>
  One send from the submit to the moment everything it started has settled, with the
  outcome of the request as a parameter. \<open>None\<close> when \<open>handleSend\<close> returned at its
  first line and issued no request.
\<close>

definition sendMessage :: "fetch_result \<Rightarrow> ui \<Rightarrow> ui option" where
  "sendMessage r u =
     (case handleSend_start u of
        (_, None) \<Rightarrow> None
      | (u1, Some (_, c)) \<Rightarrow>
          (case handleSend_resume c r u1 of
             (u2, None) \<Rightarrow> Some u2
           | (u2, Some t) \<Rightarrow> Some (finish_typing t u2)))"

text \<open>
  \<open>ticks k\<close>: \<open>k\<close> successive calls of \<open>typeNextChar\<close> (the first one is made by
  \<open>handleSend\<close> itself, the others by the timer).
\<close>

fun ticks :: "nat \<Rightarrow> typing \<Rightarrow> ui \<Rightarrow> ui \<times> typing option" where
  "ticks 0 t u = (u, Some t)"
| "ticks (Suc k) t u =
     (case typeNextChar t u of
        (u', None) \<Rightarrow> (u', None)
      | (u', Some t') \<Rightarrow> ticks k t' u')"

text \<open>
  How a request ended, as \<open>handleSend\<close> tells the cases apart. \<open>reply r\<close> is
  \<open>Some\<close> of \<open>data.history\<close> when the request succeeded (a 2xx status and a body
  that parsed to a non-null value), \<open>None\<close> when it failed; \<open>threw r\<close> holds when
  the failure was an exception, thrown by \<open>fetch\<close> or while the body was read.
\<close>

definition reply :: "fetch_result \<Rightarrow> message list option option" where
  "reply r =
     (case r of
        Rejected \<Rightarrow> None
      | Resolved res \<Rightarrow>
          if ok res then (case body res of Json (JData h) \<Rightarrow> Some h | _ \<Rightarrow> None) else None)"

definition threw :: "fetch_result \<Rightarrow> bool" where
  "threw r \<longleftrightarrow>
     (case r of
        Rejected \<Rightarrow> True
      | Resolved res \<Rightarrow>
          (case body res of
             Unreadable \<Rightarrow> True
           | NotJson \<Rightarrow> ok res
           | Json JNull \<Rightarrow> ok res
           | Json (JData h) \<Rightarrow> False))"

definition status_of :: "fetch_result \<Rightarrow> nat option" where
  "status_of r = (case r of Rejected \<Rightarrow> None | Resolved res \<Rightarrow> Some (status res))"

text \<open>The three messages \<open>handleSend\<close> can put into \<open>error\<close>.\<close>

definition overloaded_message :: js_string where
  "overloaded_message = lit ''Gemini API is overloaded. Please try again in a few seconds.''"

definition generic_message :: js_string where
  "generic_message = lit ''Something went wrong. Please try again.''"

definition network_message :: js_string where
  "network_message = lit ''Network error. Please try again.''"

text \<open>
  The transcript is the pre-call transcript followed by exactly one user message and one
  assistant message.
\<close>

definition extended_by_pair :: "message list \<Rightarrow> message list \<Rightarrow> bool" where
  "extended_by_pair before after \<longleftrightarrow>
     (case drop (length before) after of
        [m, b] \<Rightarrow> take (length before) after = before
                  \<and> role m = lit ''user'' \<and> role b = lit ''assistant''
      | _ \<Rightarrow> False)"

section \<open>handleResetSession, the mount effect and fetchHistory\<close>

text \<open>Steps 2) to 4) of \<open>handleResetSession\<close>, with the value drawn by \<open>Math.random()\<close>.\<close>

definition handleResetSession_finish :: "real \<Rightarrow> ui \<Rightarrow> ui" where
  "handleResetSession_finish rnd u =
     (let newId = newSessionId rnd
      in u\<lparr>localStorage := Some newId, sessionId := newId, messages := [], error := []\<rparr>)"

text \<open>
  The function resumed after \<open>await fetch(.../clear)\<close>: a rejection is caught and
  logged, a response of any status is ignored.
\<close>

definition handleResetSession_resume :: "fetch_result \<Rightarrow> real \<Rightarrow> ui \<Rightarrow> ui" where
  "handleResetSession_resume r rnd u =
     (case r of
        Rejected \<Rightarrow> handleResetSession_finish rnd u
      | Resolved res \<Rightarrow> handleResetSession_finish rnd u)"

text \<open>
  One reset with no other event in between; the request is issued only when there is a
  session id.
\<close>

definition handleResetSession :: "fetch_result \<Rightarrow> real \<Rightarrow> ui \<Rightarrow> ui" where
  "handleResetSession r rnd u =
     (if sessionId u \<noteq> [] then handleResetSession_resume r rnd u
      else handleResetSession_finish rnd u)"

text \<open>The first \<open>useEffect\<close>, up to the call of \<open>fetchHistory\<close>.\<close>

definition mount :: "real \<Rightarrow> ui \<Rightarrow> ui" where
  "mount rnd u =
     (case localStorage u of
        None \<Rightarrow> (let stored = newSessionId rnd in u\<lparr>localStorage := Some stored, sessionId := stored\<rparr>)
      | Some s \<Rightarrow>
          if s = [] then (let stored = newSessionId rnd in u\<lparr>localStorage := Some stored, sessionId := stored\<rparr>)
          else u\<lparr>sessionId := s\<rparr>)"

definition fetchHistory_resume :: "fetch_result \<Rightarrow> ui \<Rightarrow> ui" where
  "fetchHistory_resume r u =
     (case r of
        Rejected \<Rightarrow> u
      | Resolved res \<Rightarrow>
          if \<not> ok res then u
          else
            (case body res of
               Unreadable \<Rightarrow> u
             | NotJson \<Rightarrow> u
             | Json JNull \<Rightarrow> u
             | Json (JData history) \<Rightarrow>
                 u\<lparr>messages := (case history of None \<Rightarrow> [] | Some h \<Rightarrow> h)\<rparr>))"

section \<open>The component as an event-driven system\<close>

text \<open>
  The page runs on one event loop. Between two events the state is the \<open>ui\<close> together
  with what is in flight: the history requests, the chat requests (each with the closure
  of the \<open>handleSend\<close> call that waits for it), the armed timers of typing animations
  (each with the closure of its \<open>typeNextChar\<close>) and the session-clear requests.
\<close>

record app =
  view :: ui
  historyRequests :: nat
  chatRequests :: "send_closure list"
  timers :: "typing list"
  clearRequests :: nat

text \<open>
  The events: the mount effect, the arrival of the history, a change of the input field,
  a submit of the form, the settling of the \<open>i\<close>-th pending chat request, the firing
  of the \<open>j\<close>-th armed timer, a click on the reset button and the settling of a
  session-clear request. Events that draw a random number carry it.
\<close>

datatype event =
    Mount real
  | HistoryArrives fetch_result
  | Change js_string
  | Submit
  | ChatArrives nat fetch_result
  | TimerFires nat
  | ResetClick real
  | ClearArrives fetch_result real

text \<open>The send button: \<open>disabled={loading || !input.trim()}\<close>.\<close>

definition send_disabled :: "ui \<Rightarrow> bool" where
  "send_disabled u \<longleftrightarrow> loading u \<or> trim (input u) = []"

definition remove_nth :: "nat \<Rightarrow> 'a list \<Rightarrow> 'a list" where
  "remove_nth i xs = take i xs @ drop (Suc i) xs"

fun step :: "app \<Rightarrow> event \<Rightarrow> app" where
  "step s (Mount rnd) =
     s\<lparr>view := mount rnd (view s), historyRequests := historyRequests s + 1\<rparr>"
| "step s (HistoryArrives r) =
     (if historyRequests s = 0 then s
      else s\<lparr>view := fetchHistory_resume r (view s),
             historyRequests := historyRequests s - 1\<rparr>)"
| "step s (Change v) = s\<lparr>view := (view s)\<lparr>input := v\<rparr>\<rparr>"
| "step s Submit =
     (if send_disabled (view s) then s
      else
        (case handleSend_start (view s) of
           (u, None) \<Rightarrow> s\<lparr>view := u\<rparr>
         | (u, Some (q, c)) \<Rightarrow> s\<lparr>view := u, chatRequests := chatRequests s @ [c]\<rparr>))"
| "step s (ChatArrives i r) =
     (if length (chatRequests s) \<le> i then s
      else
        (case handleSend_resume (chatRequests s ! i) r (view s) of
           (u, None) \<Rightarrow> s\<lparr>view := u, chatRequests := remove_nth i (chatRequests s)\<rparr>
         | (u, Some t) \<Rightarrow>
             s\<lparr>view := u, chatRequests := remove_nth i (chatRequests s),
               timers := timers s @ [t]\<rparr>))"
| "step s (TimerFires j) =
     (if length (timers s) \<le> j then s
      else
        (case typeNextChar (timers s ! j) (view s) of
           (u, None) \<Rightarrow> s\<lparr>view := u, timers := remove_nth j (timers s)\<rparr>
         | (u, Some t) \<Rightarrow> s\<lparr>view := u, timers := (timers s)[j := t]\<rparr>))"
| "step s (ResetClick rnd) =
     (if sessionId (view s) \<noteq> [] then s\<lparr>clearRequests := clearRequests s + 1\<rparr>
      else s\<lparr>view := handleResetSession_finish rnd (view s)\<rparr>)"
| "step s (ClearArrives r rnd) =
     (if clearRequests s = 0 then s
      else s\<lparr>view := handleResetSession_resume r rnd (view s),
             clearRequests := clearRequests s - 1\<rparr>)"

text \<open>
  The page before its first effect has run; \<open>stored\<close> is what \<open>localStorage\<close> holds
  under \<open>"sessionId"\<close>.
\<close>

definition initial :: "js_string option \<Rightarrow> app" where
  "initial stored =
     \<lparr>view = \<lparr>sessionId = [], messages = [], input = [], loading = False, error = [],
              localStorage = stored\<rparr>,
      historyRequests = 0, chatRequests = [], timers = [], clearRequests = 0\<rparr>"

text \<open>
  What the claims say about the transcript refers to things that are no variables of the
  source; they are followed beside the state, from what the events carry:
  \<^item> \<open>authoritative\<close>, the last-known authoritative transcript: the history carried by the
    last response that has been put through, a history response or the response to a
    send (taken over when the send is through: at once when no animation is armed, when
    the animation ends otherwise). A response without history tells nothing and leaves
    it as it is. A reset starts a new session, whose transcript is empty;
  \<^item> \<open>asked\<close>, the texts of the messages whose requests are in flight, in the order of
    \<open>chatRequests\<close>;
  \<^item> \<open>arriving\<close>, for every animation, in the order of \<open>timers\<close>, the text that was
    asked and the history carried by the response that is being typed (\<open>[]\<close> if it
    carried none).
\<close>

record observer =
  authoritative :: "message list"
  asked :: "js_string list"
  arriving :: "(js_string \<times> message list) list"

fun observe :: "app \<Rightarrow> event \<Rightarrow> observer \<Rightarrow> observer" where
  "observe s (HistoryArrives r) g =
     (if historyRequests s = 0 then g
      else (case reply r of Some (Some h) \<Rightarrow> g\<lparr>authoritative := h\<rparr> | _ \<Rightarrow> g))"
| "observe s Submit g =
     (if length (chatRequests (step s Submit)) = length (chatRequests s) then g
      else g\<lparr>asked := asked g @ [input (view s)]\<rparr>)"
| "observe s (ChatArrives i r) g =
     (if length (chatRequests s) \<le> i then g
      else if length (timers (step s (ChatArrives i r))) = length (timers s) then
        (case reply r of
           Some (Some h) \<Rightarrow> g\<lparr>authoritative := h, asked := remove_nth i (asked g)\<rparr>
         | _ \<Rightarrow> g\<lparr>asked := remove_nth i (asked g)\<rparr>)
      else
        g\<lparr>asked := remove_nth i (asked g),
          arriving := arriving g
            @ [(asked g ! i, case reply r of Some (Some h) \<Rightarrow> h | _ \<Rightarrow> [])]\<rparr>)"
| "observe s (TimerFires j) g =
     (if length (timers s) \<le> j then g
      else if length (timers (step s (TimerFires j))) = length (timers s) then g
      else g\<lparr>authoritative := snd (arriving g ! j), arriving := remove_nth j (arriving g)\<rparr>)"
| "observe s (ResetClick rnd) g =
     (if sessionId (view s) \<noteq> [] then g else g\<lparr>authoritative := []\<rparr>)"
| "observe s (ClearArrives r rnd) g =
     (if clearRequests s = 0 then g else g\<lparr>authoritative := []\<rparr>)"
| "observe s (Mount rnd) g = g"
| "observe s (Change v) g = g"

definition nothing_known :: observer where
  "nothing_known = \<lparr>authoritative = [], asked = [], arriving = []\<rparr>"

fun run :: "app \<times> observer \<Rightarrow> event list \<Rightarrow> app \<times> observer" where
  "run sg [] = sg"
| "run sg (e # es) = run (step (fst sg) e, observe (fst sg) e (snd sg)) es"







section \<open>Concrete states and responses used in the examples\<close>

definition example_ui :: ui where
  "example_ui =
     \<lparr>sessionId = lit ''123456'',
      messages = [\<lparr>role = lit ''user'', content = lit ''hi''\<rparr>,
                  \<lparr>role = lit ''assistant'', content = lit ''hello''\<rparr>],
      input = lit ''news?'', loading = False, error = lit ''old'',
      localStorage = Some (lit ''123456'')\<rparr>"

definition example_user_msg :: message where
  "example_user_msg = \<lparr>role = lit ''user'', content = lit ''news?''\<rparr>"

definition example_bot_msg :: message where
  "example_bot_msg = \<lparr>role = lit ''assistant'', content = lit ''Top''\<rparr>"

definition example_closure :: send_closure where
  "example_closure =
     \<lparr>previousMessages = messages example_ui,
      optimistic = messages example_ui @ [example_user_msg]\<rparr>"





section \<open>Basic facts\<close>

lemma lit_user_ne: "lit ''user'' \<noteq> lit ''assistant''"
  by (simp add: lit_def)

lemma example_input_valid: "trim (input example_ui) \<noteq> [] \<and> sessionId example_ui \<noteq> []"
  by (simp add: example_ui_def trim_def lit_def is_space_def)

lemma dropWhile_all: "(\<forall>x\<in>set (dropWhile P s). P x) \<longleftrightarrow> (\<forall>x\<in>set s. P x)"
proof
  assume a: "\<forall>x\<in>set (dropWhile P s). P x"
  have "dropWhile P s = []"
  proof (rule ccontr)
    assume n: "dropWhile P s \<noteq> []"
    then have "\<not> P (hd (dropWhile P s))" by (rule hd_dropWhile)
    moreover have "hd (dropWhile P s) \<in> set (dropWhile P s)" using n by simp
    ultimately show False using a by blast
  qed
  then show "\<forall>x\<in>set s. P x" by simp
next
  assume "\<forall>x\<in>set s. P x"
  then show "\<forall>x\<in>set (dropWhile P s). P x" by (blast dest: set_dropWhileD)
qed

text \<open>\<open>!input.trim()\<close> holds exactly for the empty and the whitespace-only strings.\<close>

lemma trim_empty_iff: "trim s = [] \<longleftrightarrow> list_all is_space s"
  by (simp add: trim_def dropWhile_all list_all_iff)

lemma handleSend_start_valid:
  assumes "trim (input u) \<noteq> []" "sessionId u \<noteq> []"
  shows "handleSend_start u =
    (u\<lparr>error := [], loading := True,
       messages := messages u @ [\<lparr>role = lit ''user'', content = input u\<rparr>]\<rparr>,
     Some (\<lparr>req_sessionId = sessionId u, userMessage = input u\<rparr>,
           \<lparr>previousMessages = messages u,
            optimistic = messages u @ [\<lparr>role = lit ''user'', content = input u\<rparr>]\<rparr>))"
  using assms by (simp add: handleSend_start_def Let_def)

text \<open>However far the animation has got, running it to its end shows \<open>fullHistory\<close>.\<close>

lemma finish_typing_eq: "finish_typing t u = u\<lparr>messages := fullHistory t\<rparr>"
proof (induction t u rule: finish_typing.induct)
  case (1 t u)
  show ?case
  proof (cases "index t < length (fullText t)")
    case True
    then show ?thesis
      using "1.IH" by (subst finish_typing.simps) (simp add: typeNextChar_def Let_def)
  next
    case False
    then show ?thesis
      by (subst finish_typing.simps) (simp add: typeNextChar_def)
  qed
qed

lemma resume_failed:
  assumes "reply r = None"
  shows "handleSend_resume c r u =
    (u\<lparr>messages := previousMessages c,
       error := (if threw r then network_message
                 else if status_of r = Some 503 then overloaded_message else generic_message),
       loading := False\<rparr>, None)"
  using assms
  by (auto simp: reply_def threw_def status_of_def handleSend_resume_def send_catch_def
      send_not_ok_def network_message_def overloaded_message_def generic_message_def
      split: fetch_result.splits body.splits json.splits if_splits)

lemma resume_succeeded:
  assumes "reply r = Some history"
  shows "handleSend_resume c r u = send_process c history u"
  using assms
  by (auto simp: reply_def handleSend_resume_def
      split: fetch_result.splits body.splits json.splits if_splits)

lemma send_process_settled:
  "(case send_process c history u of (u2, None) \<Rightarrow> u2 | (u2, Some t) \<Rightarrow> finish_typing t u2) =
     (if ends_with_assistant (fullHistory_of c history)
      then u\<lparr>messages := fullHistory_of c history, input := [], loading := False\<rparr>
      else u\<lparr>messages := fullHistory_of c history, loading := False\<rparr>)"
  by (simp add: send_process_def Let_def typeNextChar_def typing_init_def finish_typing_eq)

lemma sendMessage_succeeded:
  assumes "trim (input u) \<noteq> []" "sessionId u \<noteq> []" "reply r = Some history"
  shows "sendMessage r u =
     Some (let full = (case history of
                         None \<Rightarrow> messages u @ [\<lparr>role = lit ''user'', content = input u\<rparr>]
                       | Some h \<Rightarrow> h)
           in if ends_with_assistant full
              then u\<lparr>error := [], loading := False, messages := full, input := []\<rparr>
              else u\<lparr>error := [], loading := False, messages := full\<rparr>)"
proof -
  let ?c = "\<lparr>previousMessages = messages u,
             optimistic = messages u @ [\<lparr>role = lit ''user'', content = input u\<rparr>]\<rparr>"
  let ?u1 = "u\<lparr>error := [], loading := True,
               messages := messages u @ [\<lparr>role = lit ''user'', content = input u\<rparr>]\<rparr>"
  have "sendMessage r u =
      Some (case send_process ?c history ?u1 of
              (u2, None) \<Rightarrow> u2 | (u2, Some t) \<Rightarrow> finish_typing t u2)"
    using assms
    by (simp add: sendMessage_def handleSend_start_valid resume_succeeded
        split: prod.splits option.splits)
  then show ?thesis
    by (simp add: send_process_settled fullHistory_of_def Let_def split: option.splits)
qed

lemma sendMessage_failed:
  assumes "trim (input u) \<noteq> []" "sessionId u \<noteq> []" "reply r = None"
  shows "sendMessage r u =
     Some (u\<lparr>error := (if threw r then network_message
                        else if status_of r = Some 503 then overloaded_message
                        else generic_message),
             loading := False\<rparr>)"
  using assms by (simp add: sendMessage_def handleSend_start_valid resume_failed)

section \<open>Sending a message\<close>

text \<open>
  C5. A call of \<open>sendMessage\<close> whose input is empty or whitespace-only, or made while
  there is no session id, does nothing: \<open>handleSend\<close> returns the state it was given
  (transcript, error and loading flag included) and issues no request.
\<close>

theorem blank_send_is_noop:
  assumes "list_all is_space (input u) \<or> sessionId u = []"
  shows "handleSend_start u = (u, None) \<and> sendMessage r u = None"
  using assms by (auto simp: handleSend_start_def sendMessage_def trim_empty_iff)

theorem blank_send_is_noop_witness:
  "handleSend_start (example_ui\<lparr>input := lit ''  ''\<rparr>) = (example_ui\<lparr>input := lit ''  ''\<rparr>, None)
   \<and> sendMessage Rejected (example_ui\<lparr>input := lit ''  ''\<rparr>) = None"
  using blank_send_is_noop [of "example_ui\<lparr>input := lit ''  ''\<rparr>" Rejected]
  by (simp add: lit_def is_space_def)

text \<open>
  C7. When a send succeeds and the history of the response is empty or ends in a message
  that is not an assistant message, the resumed \<open>handleSend\<close> shows that history as it
  is, clears the loading flag and starts no animation (no timer closure is returned);
  this holds for every closure and every state it resumes in.
\<close>

theorem non_assistant_tail_shown_as_is:
  assumes "ok res" "body res = Json (JData (Some h))"
    and "h = [] \<or> role (last h) \<noteq> lit ''assistant''"
  shows "handleSend_resume c (Resolved res) u = (u\<lparr>messages := h, loading := False\<rparr>, None)"
  using assms
  by (auto simp: handleSend_resume_def send_process_def fullHistory_of_def
      ends_with_assistant_def)

theorem non_assistant_tail_shown_as_is_witness:
  "handleSend_resume example_closure
     (Resolved \<lparr>status = 200, body = Json (JData (Some [example_user_msg]))\<rparr>) example_ui
   = (example_ui\<lparr>messages := [example_user_msg], loading := False\<rparr>, None)"
  using non_assistant_tail_shown_as_is
    [of "\<lparr>status = 200, body = Json (JData (Some [example_user_msg]))\<rparr>" "[example_user_msg]"
        example_closure example_ui]
  by (simp add: ok_def example_user_msg_def lit_def)

text \<open>
  C9. When a send succeeds and the response has no history, the transcript settles to
  the optimistic one, the pre-call transcript followed by the user message; nothing else
  is appended, the loading flag is cleared, and the state is final as \<open>handleSend\<close>
  leaves it (no animation is started, so the input is left as it was).
\<close>

theorem missing_history_settles_optimistic:
  assumes "trim (input u) \<noteq> []" "sessionId u \<noteq> []"
    and "ok res" "body res = Json (JData None)"
  shows "sendMessage (Resolved res) u =
           Some (u\<lparr>error := [], loading := False,
                   messages := messages u @ [\<lparr>role = lit ''user'', content = input u\<rparr>]\<rparr>)
         \<and> (\<forall>q c u1. handleSend_start u = (u1, Some (q, c)) \<longrightarrow>
               snd (handleSend_resume c (Resolved res) u1) = None)"
proof -
  have r: "reply (Resolved res) = Some None"
    using assms by (simp add: reply_def)
  have e: "\<not> ends_with_assistant (messages u @ [\<lparr>role = lit ''user'', content = input u\<rparr>])"
    by (simp add: ends_with_assistant_def lit_user_ne)
  have "sendMessage (Resolved res) u =
           Some (u\<lparr>error := [], loading := False,
                   messages := messages u @ [\<lparr>role = lit ''user'', content = input u\<rparr>]\<rparr>)"
    using sendMessage_succeeded [OF assms(1,2) r] e by simp
  moreover have "snd (handleSend_resume c (Resolved res) u1) = None"
    if "handleSend_start u = (u1, Some (q, c))" for q c u1
    using that assms(1,2) e
    by (auto simp: handleSend_start_valid resume_succeeded [OF r] send_process_def
        fullHistory_of_def)
  ultimately show ?thesis by blast
qed

theorem missing_history_settles_optimistic_witness:
  "sendMessage (Resolved \<lparr>status = 200, body = Json (JData None)\<rparr>) example_ui =
     Some (example_ui\<lparr>error := [], loading := False,
             messages := messages example_ui @ [example_user_msg]\<rparr>)"
  using missing_history_settles_optimistic
    [of example_ui "\<lparr>status = 200, body = Json (JData None)\<rparr>"] example_input_valid
  by (simp add: ok_def example_user_msg_def) (simp add: example_ui_def)

text \<open>
  C3. When a send succeeds and the history of the response ends in an assistant message,
  the transcript, once the animation has consumed every character, is exactly the history
  the backend returned, whatever the animation showed in between. (The send also clears
  the error, the input and the loading flag.)
\<close>

theorem animation_converges:
  assumes "trim (input u) \<noteq> []" "sessionId u \<noteq> []"
    and "ok res" "body res = Json (JData (Some h))"
    and "h \<noteq> []" "role (last h) = lit ''assistant''"
  shows "sendMessage (Resolved res) u =
     Some (u\<lparr>error := [], loading := False, messages := h, input := []\<rparr>)"
proof -
  have r: "reply (Resolved res) = Some (Some h)"
    using assms by (simp add: reply_def)
  show ?thesis
    using sendMessage_succeeded [OF assms(1,2) r] assms(5,6)
    by (simp add: ends_with_assistant_def)
qed

theorem animation_converges_witness:
  "sendMessage
     (Resolved \<lparr>status = 200,
                body = Json (JData (Some (messages example_ui @ [example_user_msg, example_bot_msg])))\<rparr>)
     example_ui =
   Some (example_ui\<lparr>error := [], loading := False,
           messages := messages example_ui @ [example_user_msg, example_bot_msg], input := []\<rparr>)"
  using animation_converges
    [of example_ui
        "\<lparr>status = 200,
          body = Json (JData (Some (messages example_ui @ [example_user_msg, example_bot_msg])))\<rparr>"
        "messages example_ui @ [example_user_msg, example_bot_msg]"]
    example_input_valid
  by (simp add: ok_def example_bot_msg_def)

lemma ticks_from:
  assumes "content (typedBot t) = take (index t) (fullText t)"
    and "index t + k \<le> length (fullText t)" "0 < k"
  shows "ticks k t u =
     (u\<lparr>messages := t_optimistic t @ [(typedBot t)\<lparr>content := take (index t + k) (fullText t)\<rparr>]\<rparr>,
      Some (t\<lparr>typedBot := (typedBot t)\<lparr>content := take (index t + k) (fullText t)\<rparr>,
              index := index t + k\<rparr>))"
  using assms
proof (induction k arbitrary: t u)
  case 0
  then show ?case by simp
next
  case (Suc k)
  let ?t' = "t\<lparr>typedBot := (typedBot t)\<lparr>content := take (Suc (index t)) (fullText t)\<rparr>,
                index := Suc (index t)\<rparr>"
  let ?u' = "u\<lparr>messages := t_optimistic t @ [typedBot ?t']\<rparr>"
  have lt: "index t < length (fullText t)" using Suc.prems by simp
  have one: "typeNextChar t u = (?u', Some ?t')"
    using lt Suc.prems(1) by (simp add: typeNextChar_def Let_def take_Suc_conv_app_nth)
  show ?case
  proof (cases "k = 0")
    case True
    then show ?thesis using one by simp
  next
    case False
    have "ticks k ?t' ?u' =
      (?u'\<lparr>messages := t_optimistic ?t' @ [(typedBot ?t')\<lparr>content := take (index ?t' + k) (fullText ?t')\<rparr>]\<rparr>,
       Some (?t'\<lparr>typedBot := (typedBot ?t')\<lparr>content := take (index ?t' + k) (fullText ?t')\<rparr>,
              index := index ?t' + k\<rparr>))"
      using Suc.prems False by (intro Suc.IH) simp_all
    then show ?thesis using one by simp
  qed
qed

text \<open>
  C10. The animation types one character per call of \<open>typeNextChar\<close>. Started as
  \<open>handleSend\<close> starts it (on the optimistic transcript followed by an empty assistant
  message), after \<open>k\<close> calls, for every \<open>k\<close> up to the length of the reply, the
  transcript is the optimistic transcript, unchanged, followed by one assistant message
  whose content is the first \<open>k\<close> characters of the reply: a prefix of it, of length
  \<open>k\<close>, one character longer than after \<open>k - 1\<close> calls; and the timer is armed again
  with \<open>index = k\<close>.
\<close>

theorem typing_one_char_per_tick:
  assumes "k \<le> length (content (last full))"
  shows "ticks k (typing_init c full)
           (u\<lparr>messages := optimistic c @ [typedBot (typing_init c full)]\<rparr>) =
     (u\<lparr>messages := optimistic c
          @ [\<lparr>role = lit ''assistant'', content = take k (content (last full))\<rparr>]\<rparr>,
      Some ((typing_init c full)
              \<lparr>typedBot := \<lparr>role = lit ''assistant'', content = take k (content (last full))\<rparr>,
               index := k\<rparr>))"
proof (cases "k = 0")
  case True
  then show ?thesis by (simp add: typing_init_def)
next
  case False
  then show ?thesis
    using assms ticks_from [of "typing_init c full" k]
    by (simp add: typing_init_def)
qed

theorem typing_one_char_per_tick_witness:
  "messages (fst (ticks 2 (typing_init example_closure [example_bot_msg])
      (example_ui\<lparr>messages := optimistic example_closure
           @ [typedBot (typing_init example_closure [example_bot_msg])]\<rparr>)))
   = optimistic example_closure @ [\<lparr>role = lit ''assistant'', content = lit ''To''\<rparr>]"
  using typing_one_char_per_tick [of 2 "[example_bot_msg]" example_closure example_ui]
  by (simp add: example_bot_msg_def lit_def)

text \<open>
  C4, as the code has it. When the request of a send fails, the state afterwards is the
  pre-call state (so the transcript is the pre-call snapshot) with the loading flag false
  and the error set, and no animation is started, whatever closure and state the call
  resumes in. The error is the network-error message whenever an exception was thrown
  (\<open>fetch\<close> rejected, or the body could not be read or parsed), also for a response of
  status 503; otherwise it is the overload message for status 503 and the generic
  failure message for every other non-success status.
\<close>

theorem failed_send_rolls_back:
  assumes "trim (input u) \<noteq> []" "sessionId u \<noteq> []" "reply r = None"
  shows "sendMessage r u =
           Some (u\<lparr>error := (if threw r then network_message
                              else if status_of r = Some 503 then overloaded_message
                              else generic_message),
                   loading := False\<rparr>)
         \<and> (\<forall>c v. snd (handleSend_resume c r v) = None)"
  using assms by (simp add: sendMessage_failed resume_failed)

theorem failed_send_rolls_back_witness:
  "sendMessage (Resolved \<lparr>status = 503, body = NotJson\<rparr>) example_ui =
     Some (example_ui\<lparr>error := overloaded_message, loading := False\<rparr>)"
  using failed_send_rolls_back [of example_ui "Resolved \<lparr>status = 503, body = NotJson\<rparr>"]
    example_input_valid
  by (simp add: reply_def ok_def threw_def status_of_def)

text \<open>
  C4 as stated fails: a response of status 503 whose body cannot be read makes
  \<open>await res.text()\<close> throw, and the \<open>catch\<close> block shows the network-error message,
  not the overload message.
\<close>

theorem overload_with_unreadable_body_counterexample:
  "status_of (Resolved \<lparr>status = 503, body = Unreadable\<rparr>) = Some 503
   \<and> reply (Resolved \<lparr>status = 503, body = Unreadable\<rparr>) = None
   \<and> map_option error (sendMessage (Resolved \<lparr>status = 503, body = Unreadable\<rparr>) example_ui)
       = Some network_message
   \<and> network_message \<noteq> overloaded_message"
proof -
  have r: "reply (Resolved \<lparr>status = 503, body = Unreadable\<rparr>) = None"
    by (simp add: reply_def ok_def)
  have "sendMessage (Resolved \<lparr>status = 503, body = Unreadable\<rparr>) example_ui
      = Some (example_ui\<lparr>error := network_message, loading := False\<rparr>)"
    using sendMessage_failed [OF _ _ r, of example_ui] example_input_valid
    by (simp add: threw_def)
  moreover have "network_message \<noteq> overloaded_message"
    by (simp add: network_message_def overloaded_message_def lit_def)
  ultimately show ?thesis using r by (simp add: status_of_def)
qed

text \<open>
  C2, as the code has it. A send with valid input settles with the transcript equal to
  the pre-call transcript when the request fails, to the history of the response when the
  request succeeds with one (so the transcript is the pre-call transcript extended by one
  user and one assistant message exactly when that is what the backend returns), and to
  the pre-call transcript followed by the user message alone when the request succeeds
  without a history.
\<close>

theorem settled_transcript:
  assumes "trim (input u) \<noteq> []" "sessionId u \<noteq> []"
  shows "map_option messages (sendMessage r u) =
     Some (case reply r of
             None \<Rightarrow> messages u
           | Some None \<Rightarrow> messages u @ [\<lparr>role = lit ''user'', content = input u\<rparr>]
           | Some (Some h) \<Rightarrow> h)"
proof (cases "reply r")
  case None
  then show ?thesis
    using assms by (simp add: sendMessage_failed)
next
  case (Some history)
  then show ?thesis
    using assms by (simp add: sendMessage_succeeded Let_def split: option.splits)
qed

theorem settled_transcript_witness:
  "map_option messages
     (sendMessage
        (Resolved \<lparr>status = 200,
           body = Json (JData (Some (messages example_ui @ [example_user_msg, example_bot_msg])))\<rparr>)
        example_ui)
   = Some (messages example_ui @ [example_user_msg, example_bot_msg])
   \<and> extended_by_pair (messages example_ui)
        (messages example_ui @ [example_user_msg, example_bot_msg])"
  using settled_transcript
    [of example_ui
        "Resolved \<lparr>status = 200,
           body = Json (JData (Some (messages example_ui @ [example_user_msg, example_bot_msg])))\<rparr>"]
    example_input_valid
  by (simp add: reply_def ok_def extended_by_pair_def example_user_msg_def example_bot_msg_def)

text \<open>
  C2 as stated fails: a request that succeeds with a body without history leaves the
  transcript extended by the user message alone, which is neither the pre-call transcript
  nor an extension by a user and an assistant message.
\<close>

theorem success_without_history_counterexample:
  "reply (Resolved \<lparr>status = 200, body = Json (JData None)\<rparr>) = Some None
   \<and> map_option messages
       (sendMessage (Resolved \<lparr>status = 200, body = Json (JData None)\<rparr>) example_ui)
     = Some (messages example_ui @ [example_user_msg])
   \<and> \<not> extended_by_pair (messages example_ui) (messages example_ui @ [example_user_msg])
   \<and> messages example_ui @ [example_user_msg] \<noteq> messages example_ui"
proof -
  have r: "reply (Resolved \<lparr>status = 200, body = Json (JData None)\<rparr>) = Some None"
    by (simp add: reply_def ok_def)
  have "\<not> ends_with_assistant (messages example_ui @ [example_user_msg])"
    by (simp add: ends_with_assistant_def example_user_msg_def lit_user_ne)
  moreover have "input example_ui = lit ''news?''"
    by (simp add: example_ui_def)
  ultimately have "map_option messages
       (sendMessage (Resolved \<lparr>status = 200, body = Json (JData None)\<rparr>) example_ui)
     = Some (messages example_ui @ [example_user_msg])"
    using sendMessage_succeeded [OF _ _ r, of example_ui] example_input_valid
    by (simp add: example_user_msg_def)
  then show ?thesis
    using r by (simp add: extended_by_pair_def)
qed

text \<open>
  C8, as the code has it. A send with valid input clears the input field exactly when
  the request succeeds with a history that ends in an assistant message, the one path on
  which the animation is started: on every failure path the input field is unchanged, and
  so it is on a success whose history is missing, empty or does not end in an assistant
  message.
\<close>

theorem input_cleared_with_animation:
  assumes "trim (input u) \<noteq> []" "sessionId u \<noteq> []"
  shows "map_option input (sendMessage r u) =
     Some (case reply r of
             Some (Some h) \<Rightarrow> if ends_with_assistant h then [] else input u
           | _ \<Rightarrow> input u)"
proof (cases "reply r")
  case None
  then show ?thesis
    using assms by (simp add: sendMessage_failed)
next
  case (Some history)
  have "\<not> ends_with_assistant (messages u @ [\<lparr>role = lit ''user'', content = input u\<rparr>])"
    by (simp add: ends_with_assistant_def lit_user_ne)
  then show ?thesis
    using assms Some by (simp add: sendMessage_succeeded Let_def split: option.splits)
qed

theorem input_cleared_with_animation_witness:
  "map_option input
     (sendMessage
        (Resolved \<lparr>status = 200,
           body = Json (JData (Some (messages example_ui @ [example_user_msg, example_bot_msg])))\<rparr>)
        example_ui)
   = Some []
   \<and> map_option input (sendMessage Rejected example_ui) = Some (lit ''news?'')"
  using input_cleared_with_animation
    [of example_ui
        "Resolved \<lparr>status = 200,
           body = Json (JData (Some (messages example_ui @ [example_user_msg, example_bot_msg])))\<rparr>"]
    input_cleared_with_animation [of example_ui Rejected]
    example_input_valid
  by (simp add: reply_def ok_def ends_with_assistant_def example_bot_msg_def)
     (simp add: example_ui_def)

text \<open>
  C8 as stated fails: the request succeeds and the backend returns the transcript with
  the user message as its last entry; \<open>handleSend\<close> returns from the branch for a
  history that does not end in an assistant message, which does not touch the input, and
  the input field still holds the text that was sent.
\<close>

theorem success_without_reply_keeps_input_counterexample:
  "reply (Resolved \<lparr>status = 200,
            body = Json (JData (Some (messages example_ui @ [example_user_msg])))\<rparr>)
     = Some (Some (messages example_ui @ [example_user_msg]))
   \<and> map_option input
       (sendMessage (Resolved \<lparr>status = 200,
            body = Json (JData (Some (messages example_ui @ [example_user_msg])))\<rparr>) example_ui)
     = Some (lit ''news?'')
   \<and> lit ''news?'' \<noteq> []"
proof -
  let ?r = "Resolved \<lparr>status = 200,
            body = Json (JData (Some (messages example_ui @ [example_user_msg])))\<rparr>"
  have r: "reply ?r = Some (Some (messages example_ui @ [example_user_msg]))"
    by (simp add: reply_def ok_def)
  have "\<not> ends_with_assistant (messages example_ui @ [example_user_msg])"
    by (simp add: ends_with_assistant_def example_user_msg_def lit_user_ne)
  then have "map_option input (sendMessage ?r example_ui) = Some (input example_ui)"
    using sendMessage_succeeded [OF _ _ r, of example_ui] example_input_valid
    by simp
  then show ?thesis
    using r by (simp add: example_ui_def lit_def)
qed

section \<open>Resetting the session\<close>

lemma round_even_ge_floor: "\<lfloor>r\<rfloor> \<le> round_even r"
  by (simp add: round_even_def)

lemma round_even_le_floor: "round_even r \<le> \<lfloor>r\<rfloor> + 1"
  by (simp add: round_even_def)

lemma round_even_ge:
  assumes "of_int z \<le> r"
  shows "z \<le> round_even r"
proof -
  have "z \<le> \<lfloor>r\<rfloor>" using assms by (simp add: le_floor_iff)
  then show ?thesis using round_even_ge_floor [of r] by linarith
qed

lemma round_even_below_half:
  assumes "r < of_int z + 1 / 2"
  shows "round_even r \<le> z"
proof (cases "\<lfloor>r\<rfloor> = z")
  case True
  then have "r - of_int \<lfloor>r\<rfloor> < 1 / 2" using assms by simp
  then show ?thesis using True by (simp add: round_even_def)
next
  case False
  have "r < of_int (z + 1)" using assms by simp
  then have "\<lfloor>r\<rfloor> < z + 1" by (simp only: floor_less_iff)
  then have "\<lfloor>r\<rfloor> + 1 \<le> z" using False by linarith
  then show ?thesis using round_even_le_floor [of r] by linarith
qed

lemma round_even_le:
  assumes "r \<le> of_int z"
  shows "round_even r \<le> z"
  using assms by (intro round_even_below_half) linarith

lemma bits_one: "bits (Suc 0) = Suc 0"
  by (simp add: bits.simps [of "Suc 0"] bits.simps [of 0])

lemma bits_bounds: "0 < n \<Longrightarrow> 2 ^ (bits n - 1) \<le> n \<and> n < 2 ^ bits n"
proof (induction n rule: bits.induct)
  case (1 n)
  show ?case
  proof (cases "n div 2 = 0")
    case True
    then have "n = 1" using "1.prems" by presburger
    then show ?thesis by (simp add: bits_one)
  next
    case False
    then have ih: "2 ^ (bits (n div 2) - 1) \<le> n div 2" "n div 2 < 2 ^ bits (n div 2)"
      using "1.IH" "1.prems" by simp_all
    have b: "bits n = Suc (bits (n div 2))"
      using "1.prems" by (subst bits.simps) simp
    have pos: "0 < bits (n div 2)"
      using False by (subst bits.simps) simp
    then have "(2::nat) ^ (bits n - 1) = 2 * 2 ^ (bits (n div 2) - 1)"
      using b by (cases "bits (n div 2)") simp_all
    then have "2 ^ (bits n - 1) \<le> n" using ih(1) by linarith
    moreover have "n < 2 ^ bits n" using ih(2) b by simp
    ultimately show ?thesis by simp
  qed
qed

lemma binade_ge1:
  assumes "1 \<le> y"
  shows "\<exists>k. binade y = int k \<and> 2 ^ k \<le> y \<and> y < 2 ^ Suc k"
proof -
  let ?n = "nat \<lfloor>y\<rfloor>"
  have n: "0 < ?n" using assms by simp
  have ny: "real ?n \<le> y" "y < real ?n + 1" using assms by linarith+
  from bits_bounds [OF n] have b: "2 ^ (bits ?n - 1) \<le> ?n" "?n < 2 ^ bits ?n" by simp_all
  have pos: "0 < bits ?n" using n by (subst bits.simps) simp
  have "binade y = int (bits ?n - 1)"
    using assms pos by (simp add: binade_def)
  moreover have "(2::real) ^ (bits ?n - 1) \<le> y"
  proof -
    have "(2::real) ^ (bits ?n - 1) = real (2 ^ (bits ?n - 1))" by simp
    also have "\<dots> \<le> real ?n" using b(1) by (simp only: of_nat_le_iff)
    finally show ?thesis using ny(1) by linarith
  qed
  moreover have "y < 2 ^ Suc (bits ?n - 1)"
  proof -
    have "Suc ?n \<le> 2 ^ bits ?n" using b(2) by (rule Suc_leI)
    then have "real (Suc ?n) \<le> real (2 ^ bits ?n)" by (simp only: of_nat_le_iff)
    then have "real ?n + 1 \<le> 2 ^ bits ?n" by simp
    moreover have "Suc (bits ?n - 1) = bits ?n" using pos by simp
    ultimately show ?thesis using ny(2) by simp
  qed
  ultimately show ?thesis by blast
qed

lemma ulp_mid:
  assumes "1 \<le> y" "y < 2 ^ 20"
  shows "\<exists>j. 33 \<le> j \<and> j \<le> 52 \<and> ulp y = 1 / 2 ^ j \<and> (2 ^ 19 \<le> y \<longrightarrow> j = 33)"
proof -
  from binade_ge1 [OF assms(1)] obtain k where
    k: "binade y = int k" "2 ^ k \<le> y" "y < 2 ^ Suc k" by blast
  have "(2::real) ^ k < 2 ^ 20" using k(2) assms(2) by linarith
  then have k20: "k < 20"
    by (intro power_less_imp_less_exp [where a = "2::real"]) simp_all
  have "k = 19" if "2 ^ 19 \<le> y"
  proof -
    have "(2::real) ^ 19 < 2 ^ Suc k" using that k(3) by linarith
    then have "19 < Suc k"
      by (intro power_less_imp_less_exp [where a = "2::real"]) simp_all
    then show ?thesis using k20 by simp
  qed
  moreover have "ulp y = 1 / 2 ^ (52 - k)"
    using k(1) k20 by (simp add: ulp_def nat_diff_distrib')
  ultimately show ?thesis
    using k20 by (intro exI [of _ "52 - k"]) auto
qed

lemma ulp_pos: "0 < ulp y"
  by (simp add: ulp_def)

lemma fl_pos: "0 < y \<Longrightarrow> fl y = ulp y * of_int (round_even (y / ulp y))"
  by (simp add: fl_def)

lemma fl_nonneg:
  assumes "0 \<le> y"
  shows "0 \<le> fl y"
proof (cases "y = 0")
  case True
  then show ?thesis by (simp add: fl_def)
next
  case False
  then have y: "0 < y" using assms by simp
  have "of_int 0 \<le> y / ulp y" using y ulp_pos [of y] by simp
  then have "0 \<le> round_even (y / ulp y)" by (rule round_even_ge)
  then show ?thesis using ulp_pos [of y] by (simp add: fl_pos [OF y])
qed

lemma fl_grid_le:
  assumes "1 \<le> y" "y < 2 ^ 20" "y \<le> of_int m / 2 ^ 33"
  shows "fl y \<le> of_int m / 2 ^ 33"
proof -
  from ulp_mid [OF assms(1,2)] obtain j where
    j: "33 \<le> j" "j \<le> 52" "ulp y = 1 / 2 ^ j" by blast
  have p: "(2::real) ^ j = 2 ^ 33 * 2 ^ (j - 33)"
    using j(1) power_add [of "2::real" 33 "j - 33"] by simp
  have "y * 2 ^ j \<le> of_int m / 2 ^ 33 * 2 ^ j"
    using assms(3) by (simp add: mult_right_mono)
  also have "\<dots> = of_int (m * 2 ^ (j - 33))" by (simp add: p)
  finally have "round_even (y * 2 ^ j) \<le> m * 2 ^ (j - 33)" by (rule round_even_le)
  then have "real_of_int (round_even (y * 2 ^ j)) \<le> of_int (m * 2 ^ (j - 33))"
    by (simp only: of_int_le_iff)
  then have "real_of_int (round_even (y * 2 ^ j)) / 2 ^ j \<le> of_int (m * 2 ^ (j - 33)) / 2 ^ j"
    by (simp add: divide_right_mono)
  also have "\<dots> = of_int m / 2 ^ 33" by (simp add: p)
  finally show ?thesis
    using assms(1) j(3) by (simp add: fl_def)
qed

lemma fl_grid_ge:
  assumes "1 \<le> y" "y < 2 ^ 20" "of_int m / 2 ^ 33 \<le> y"
  shows "of_int m / 2 ^ 33 \<le> fl y"
proof -
  from ulp_mid [OF assms(1,2)] obtain j where
    j: "33 \<le> j" "j \<le> 52" "ulp y = 1 / 2 ^ j" by blast
  have p: "(2::real) ^ j = 2 ^ 33 * 2 ^ (j - 33)"
    using j(1) power_add [of "2::real" 33 "j - 33"] by simp
  have "real_of_int (m * 2 ^ (j - 33)) = of_int m / 2 ^ 33 * 2 ^ j" by (simp add: p)
  also have "\<dots> \<le> y * 2 ^ j"
    using assms(3) by (simp add: mult_right_mono)
  finally have "m * 2 ^ (j - 33) \<le> round_even (y * 2 ^ j)" by (rule round_even_ge)
  then have le: "real_of_int (m * 2 ^ (j - 33)) \<le> of_int (round_even (y * 2 ^ j))"
    by (simp only: of_int_le_iff)
  have "of_int m / 2 ^ 33 = real_of_int (m * 2 ^ (j - 33)) / 2 ^ j" by (simp add: p)
  also have "\<dots> \<le> real_of_int (round_even (y * 2 ^ j)) / 2 ^ j"
    using le by (rule divide_right_mono) simp
  finally have res: "of_int m / 2 ^ 33 \<le> real_of_int (round_even (y * 2 ^ j)) / 2 ^ j" .
  have fy: "fl y = real_of_int (round_even (y * 2 ^ j)) / 2 ^ j"
    using assms(1) j(3) by (simp add: fl_def)
  show ?thesis unfolding fy by (rule res)
qed

lemma fl_top_binade:
  assumes "2 ^ 19 \<le> y" "y < 2 ^ 20" "y < of_int m / 2 ^ 33 + 1 / 2 ^ 34"
  shows "fl y \<le> of_int m / 2 ^ 33"
proof -
  have y1: "1 \<le> y" using assms(1) by simp
  from ulp_mid [OF y1 assms(2)] assms(1) have u: "ulp y = 1 / 2 ^ 33" by auto
  have "y * 2 ^ 33 < (of_int m / 2 ^ 33 + 1 / 2 ^ 34) * 2 ^ 33"
    using assms(3) by (simp add: mult_strict_right_mono)
  then have "y * 2 ^ 33 < of_int m + 1 / 2" by simp
  then have "round_even (y * 2 ^ 33) \<le> m" by (rule round_even_below_half)
  then have "real_of_int (round_even (y * 2 ^ 33)) \<le> of_int m" by (simp only: of_int_le_iff)
  then have "real_of_int (round_even (y * 2 ^ 33)) / 2 ^ 33 \<le> of_int m / 2 ^ 33"
    by (simp add: divide_right_mono)
  moreover have "fl y = 1 / 2 ^ 33 * of_int (round_even (y / (1 / 2 ^ 33)))"
    using y1 by (simp only: fl_pos flip: u)
  ultimately show ?thesis by simp
qed

lemma fl_small:
  assumes "0 < y" "y < 1"
  shows "fl y \<le> y + 1"
proof -
  have e: "binade y \<le> 0" using assms by (simp add: binade_def)
  then have u: "ulp y \<le> 1" by (simp add: ulp_def)
  have "real_of_int (round_even (y / ulp y)) \<le> of_int (\<lfloor>y / ulp y\<rfloor> + 1)"
    using round_even_le_floor [of "y / ulp y"] by (simp only: of_int_le_iff)
  also have "\<dots> \<le> y / ulp y + 1" by simp
  finally have "ulp y * of_int (round_even (y / ulp y)) \<le> ulp y * (y / ulp y + 1)"
    using ulp_pos [of y] by (simp add: mult_left_mono)
  also have "\<dots> = y + ulp y" using ulp_pos [of y] by (simp add: algebra_simps)
  finally show ?thesis using u by (simp add: fl_pos [OF assms(1)])
qed

lemma double_below_one:
  assumes "is_double x" "x < 1"
  shows "x \<le> 1 - 1 / 2 ^ 53"
proof (cases "x < 1 / 2")
  case True
  then show ?thesis by simp
next
  case False
  then have x: "1 / 2 \<le> x" "0 < x" by simp_all
  have "1 < 1 / x" "1 / x \<le> 2" using x assms(2) by (simp_all add: field_simps)
  then have "\<lceil>1 / x\<rceil> = 2" by (intro ceiling_unique) simp_all
  then have "binade x = - 1"
    using assms(2) by (simp add: binade_def bits_one)
  then have u: "ulp x = 1 / 2 ^ 53" by (simp add: ulp_def)
  let ?k = "round_even (x * 2 ^ 53)"
  have "fl x = 1 / 2 ^ 53 * of_int (round_even (x / (1 / 2 ^ 53)))"
    using x(2) by (simp only: fl_pos flip: u)
  then have eq: "x = of_int ?k / 2 ^ 53"
    using assms(1) by (simp add: is_double_def)
  then have "real_of_int ?k < 2 ^ 53" using assms(2) by (simp add: field_simps)
  then have "real_of_int ?k < of_int (2 ^ 53)" by simp
  then have "?k < 2 ^ 53" by (simp only: of_int_less_iff)
  then have "?k \<le> 2 ^ 53 - 1" by simp
  then have "real_of_int ?k \<le> of_int (2 ^ 53 - 1)" by (simp only: of_int_le_iff)
  then have "real_of_int ?k / 2 ^ 53 \<le> of_int (2 ^ 53 - 1) / 2 ^ 53"
    by (simp add: divide_right_mono)
  then show ?thesis using eq by (simp add: field_simps)
qed

lemma product_rounded:
  assumes "is_double x" "0 \<le> x" "x < 1"
  shows "0 \<le> fl (x * 900000) \<and> fl (x * 900000) \<le> 900000 - 1 / 2 ^ 33"
proof -
  let ?p = "x * 900000"
  have p0: "0 \<le> ?p" using assms(2) by simp
  have "x \<le> 1 - 1 / 2 ^ 53" using assms(1,3) by (rule double_below_one)
  then have pu: "?p \<le> 900000 - 900000 / 2 ^ 53" by simp
  have "fl ?p \<le> 900000 - 1 / 2 ^ 33"
  proof -
    consider "?p = 0" | "0 < ?p" "?p < 1" | "1 \<le> ?p" "?p < 2 ^ 19" | "2 ^ 19 \<le> ?p"
      using p0 by linarith
    then show ?thesis
    proof cases
      case 1
      then show ?thesis by (simp add: fl_def)
    next
      case 2
      then show ?thesis using fl_small [of ?p] by simp
    next
      case 3
      have "fl ?p \<le> of_int (2 ^ 52) / 2 ^ 33"
        using 3 by (intro fl_grid_le) simp_all
      then show ?thesis by simp
    next
      case 4
      have "fl ?p \<le> of_int (900000 * 2 ^ 33 - 1) / 2 ^ 33"
        using 4 pu by (intro fl_top_binade) simp_all
      then show ?thesis by simp
    qed
  qed
  then show ?thesis using fl_nonneg [OF p0] by simp
qed

lemma newSessionId_range:
  assumes "is_double rnd" "0 \<le> rnd" "rnd < 1"
  shows "100000 \<le> nat \<lfloor>fl (100000 + fl (rnd * 900000))\<rfloor>
         \<and> nat \<lfloor>fl (100000 + fl (rnd * 900000))\<rfloor> < 1000000"
proof -
  let ?s = "100000 + fl (rnd * 900000)"
  from product_rounded [OF assms] have s: "100000 \<le> ?s" "?s \<le> 1000000 - 1 / 2 ^ 33"
    by simp_all
  have lo: "of_int (100000 * 2 ^ 33) / 2 ^ 33 \<le> fl ?s"
    using s by (intro fl_grid_ge) simp_all
  have hi: "fl ?s \<le> of_int (1000000 * 2 ^ 33 - 1) / 2 ^ 33"
    using s by (intro fl_grid_le) simp_all
  have "(100000::real) \<le> fl ?s" using lo by simp
  then have "(100000::int) \<le> \<lfloor>fl ?s\<rfloor>" by (simp add: le_floor_iff)
  moreover have "fl ?s < 1000000" using hi by simp
  then have "\<lfloor>fl ?s\<rfloor> < (1000000::int)" by (simp add: floor_less_iff)
  ultimately show ?thesis by linarith
qed

lemma digit_is_digit:
  assumes "m < 10"
  shows "is_digit (digit m) \<and> unat (digit m) = 48 + m"
proof -
  have "unat (of_nat (48 + m) :: 16 word) = (48 + m) mod 2 ^ LENGTH(16)"
    by (rule unat_of_nat)
  also have "\<dots> = 48 + m" using assms by simp
  finally show ?thesis
    using assms by (simp add: is_digit_def digit_def del: of_nat_add)
qed

lemma toString_digits: "list_all is_digit (toString n)"
proof (induction n rule: toString.induct)
  case (1 n)
  show ?case
  proof (cases "n < 10")
    case True
    then show ?thesis by (subst toString.simps) (simp add: digit_is_digit)
  next
    case False
    then show ?thesis using "1.IH" by (subst toString.simps) (simp add: digit_is_digit)
  qed
qed

text \<open>Reading the decimal string of a number gives the number back.\<close>

lemma decimal_toString: "decimal (toString n) = n"
proof (induction n rule: toString.induct)
  case (1 n)
  show ?case
  proof (cases "n < 10")
    case True
    then show ?thesis
      by (subst toString.simps) (simp add: decimal_def digit_is_digit)
  next
    case False
    then have "decimal (toString (n div 10)) = n div 10" using "1.IH" by simp
    then have "foldl (\<lambda>n c. 10 * n + (unat c - 48)) 0 (toString (n div 10)) = n div 10"
      by (simp add: decimal_def)
    then show ?thesis
      using False by (subst toString.simps) (simp add: decimal_def digit_is_digit)
  qed
qed

lemma toString_length_small: "n < 10 \<Longrightarrow> length (toString n) = 1"
  by (subst toString.simps) simp

lemma toString_length_step: "10 \<le> n \<Longrightarrow> length (toString n) = Suc (length (toString (n div 10)))"
  by (subst toString.simps) simp

lemma toString_length6:
  assumes "100000 \<le> n" "n < 1000000"
  shows "length (toString n) = 6"
proof -
  let ?a = "n div 10" let ?b = "?a div 10" let ?c = "?b div 10" let ?d = "?c div 10"
  let ?e = "?d div 10"
  have "length (toString n) = Suc (length (toString ?a))"
    using assms by (intro toString_length_step) simp
  also have "length (toString ?a) = Suc (length (toString ?b))"
    using assms by (intro toString_length_step) simp
  also have "length (toString ?b) = Suc (length (toString ?c))"
    using assms by (intro toString_length_step) simp
  also have "length (toString ?c) = Suc (length (toString ?d))"
    using assms by (intro toString_length_step) simp
  also have "length (toString ?d) = Suc (length (toString ?e))"
    using assms by (intro toString_length_step) simp
  also have "length (toString ?e) = 1"
    using assms by (intro toString_length_small) simp
  finally show ?thesis by simp
qed

lemmas double_defs = is_double_def fl_def ulp_def binade_def round_even_def bits.simps

lemma half_is_double: "is_double (1 / 2)"
  by (simp add: double_defs)

lemma half_id: "newSessionId (1 / 2) = lit ''550000''"
  by (simp add: newSessionId_def double_defs toString.simps lit_def digit_def)

lemma near_integer_is_double: "is_double (123183457807755 / 2 ^ 52)"
  by (simp add: double_defs)

lemma near_integer_id: "newSessionId (123183457807755 / 2 ^ 52) = lit ''124617''"
  by (simp add: newSessionId_def double_defs toString.simps lit_def digit_def)

text \<open>
  C6. Whatever the session-clear request came back with (and also when none was issued),
  a reset leaves the transcript empty and the error empty, and the session id, both in the
  component and in \<open>localStorage\<close>, is the newly generated one, which replaces the
  previous one: a string of six decimal digits, the decimal numeral of the number
  \<open>Math.floor(100000 + Math.random() * 900000)\<close> that the source computes, in doubles,
  from the value \<open>rnd\<close> drawn by \<open>Math.random()\<close>, a double from 0 (included) to 1
  (excluded).
\<close>

theorem reset_postcondition:
  assumes "is_double rnd" "0 \<le> rnd" "rnd < 1"
  shows "handleResetSession r rnd u =
           u\<lparr>localStorage := Some (newSessionId rnd), sessionId := newSessionId rnd,
             messages := [], error := []\<rparr>
         \<and> length (newSessionId rnd) = 6 \<and> list_all is_digit (newSessionId rnd)
         \<and> decimal (newSessionId rnd) = nat \<lfloor>fl (100000 + fl (rnd * 900000))\<rfloor>"
proof -
  have "handleResetSession r rnd u =
           u\<lparr>localStorage := Some (newSessionId rnd), sessionId := newSessionId rnd,
             messages := [], error := []\<rparr>"
    by (simp add: handleResetSession_def handleResetSession_resume_def
        handleResetSession_finish_def Let_def split: fetch_result.splits)
  moreover have "length (newSessionId rnd) = 6"
    unfolding newSessionId_def using newSessionId_range [OF assms]
    by (intro toString_length6) simp_all
  moreover have "list_all is_digit (newSessionId rnd)"
    unfolding newSessionId_def by (rule toString_digits)
  moreover have "decimal (newSessionId rnd) = nat \<lfloor>fl (100000 + fl (rnd * 900000))\<rfloor>"
    unfolding newSessionId_def by (rule decimal_toString)
  ultimately show ?thesis by simp
qed

theorem reset_postcondition_witness:
  "handleResetSession Rejected (1 / 2) example_ui =
     example_ui\<lparr>localStorage := Some (lit ''550000''), sessionId := lit ''550000'',
       messages := [], error := []\<rparr>
   \<and> decimal (lit ''550000'') = 550000
   \<and> sessionId (handleResetSession Rejected (123183457807755 / 2 ^ 52) example_ui)
       = lit ''124617''
   \<and> decimal (lit ''124617'') = 124617"
proof -
  have a: "decimal (lit ''550000'') = 550000" "decimal (lit ''124617'') = 124617"
    by (simp_all add: decimal_def lit_def)
  have b: "(0::real) \<le> 123183457807755 / 2 ^ 52" "(123183457807755::real) / 2 ^ 52 < 1"
    by simp_all
  show ?thesis
    using reset_postcondition [OF half_is_double, of Rejected example_ui]
      reset_postcondition [OF near_integer_is_double b, of Rejected example_ui] a
    unfolding half_id near_integer_id by simp
qed

section \<open>The transcript across events\<close>

















text \<open>
  In every run, with or without overlap, \<open>asked\<close> and \<open>arriving\<close> run parallel to
  \<open>chatRequests\<close> and \<open>timers\<close>.
\<close>

lemma parallel_step:
  assumes "length (asked g) = length (chatRequests s)"
    and "length (arriving g) = length (timers s)"
  shows "length (asked (observe s e g)) = length (chatRequests (step s e))
       \<and> length (arriving (observe s e g)) = length (timers (step s e))"
  using assms
  by (cases e)
     (auto simp: remove_nth_def Let_def min_def split: prod.splits option.splits if_splits)

lemma parallel_run:
  assumes "length (asked g) = length (chatRequests s)"
    and "length (arriving g) = length (timers s)"
  shows "length (asked (snd (run (s, g) es))) = length (chatRequests (fst (run (s, g) es)))
       \<and> length (arriving (snd (run (s, g) es))) = length (timers (fst (run (s, g) es)))"
  using assms
proof (induction es arbitrary: s g)
  case Nil
  then show ?case by simp
next
  case (Cons e es)
  then show ?case using parallel_step [of g s e] by simp
qed

lemma parallel_initial:
  "length (asked (snd (run (initial stored, nothing_known) es)))
     = length (chatRequests (fst (run (initial stored, nothing_known) es)))
   \<and> length (arriving (snd (run (initial stored, nothing_known) es)))
     = length (timers (fst (run (initial stored, nothing_known) es)))"
  by (rule parallel_run) (simp_all add: initial_def nothing_known_def)












end
